theory Spec2Isabelle
  imports Main "HOL-Library.Word" "HOL-Library.Multiset" "HOL-Library.List_Lexorder"
begin

section \<open>Data model (src/lib/node.go, src/lib/callbacks.go)\<close>

text \<open>
  Go values are modelled as follows: a byte is an 8-bit word, a byte slice a list of
  bytes (a nil slice and an empty slice are both the empty list, as \<open>len\<close>,
  \<open>range\<close>, \<open>bytes.Compare\<close> and \<open>IP.Equal\<close> cannot tell them apart), a string
  a \<open>string\<close>, a pointer an option (\<open>None\<close> is nil), a Go \<open>error\<close> its message
  (\<open>err.Error()\<close>), and a run-time panic a value of type \<open>panic\<close> returned on the left
  of a sum.
\<close>

type_synonym byte = "8 word"

text \<open>\<open>float32\<close> values are only stored and copied by the code modelled here; they are
  carried as their IEEE-754 bit pattern.\<close>

type_synonym float32 = "32 word"

datatype panic = NilDereference

text \<open>\<open>net.TCPAddr\<close> of the Go standard library: \<open>IP\<close> is a \<open>net.IP\<close>, a byte slice.\<close>

record TCPAddr =
  IP :: "byte list"
  Port :: int
  Zone :: string

text \<open>Modelled from the spec: the declaration of \<open>Status\<close> is not among the sources; the
  code names its values \<open>StatusIDLE\<close> and \<open>StatusWorking\<close>, the spec gives the
  enumeration {Idle, Working}.\<close>

datatype Status = StatusIDLE | StatusWorking

text \<open>Modelled from the spec: the declaration of \<open>NodeInfo\<close> is not among the sources; the
  code reads and writes the fields \<open>OS\<close>, \<open>Usage\<close> and \<open>CPUTemp\<close>.\<close>

record NodeInfo =
  OS :: string
  Usage :: float32
  CPUTemp :: float32

text \<open>\<open>type Node struct\<close>. \<open>Conn\<close> is a pointer to a connection, kept as an address.\<close>

record Node =
  Conn :: "nat option"
  Addr :: "TCPAddr option"
  Name :: string
  Status :: Status
  Info :: NodeInfo

text \<open>\<open>type Nodes []Node\<close>\<close>

type_synonym Nodes = "Node list"

text \<open>The zero value \<open>Node{}\<close>: nil pointers, the empty string, and the zero values of
  \<open>Status\<close> and \<open>NodeInfo\<close>.\<close>

definition zero_NodeInfo :: NodeInfo where
  "zero_NodeInfo = \<lparr>OS = [], Usage = 0, CPUTemp = 0\<rparr>"

definition zero_Node :: Node where
  "zero_Node = \<lparr>Conn = None, Addr = None, Name = [], Status = StatusIDLE, Info = zero_NodeInfo\<rparr>"

text \<open>Modelled from the spec: the declaration of \<open>Server\<close> is not among the sources; the
  code modelled here uses its fields \<open>nodes\<close> (guarded by \<open>nodesLock\<close>) and \<open>Status\<close>
  (\<open>Server_Status\<close> here, \<open>Status\<close> being the field of \<open>Node\<close>). Calls are modelled
  one at a time, so the lock itself carries no state.\<close>

record Server =
  nodes :: Nodes
  Server_Status :: Status

subsection \<open>IP addresses\<close>

text \<open>\<open>net.IP.Equal\<close> of the Go standard library: slices of the same length are compared
  bytewise; a 4-byte address equals the 16-byte address that is its IPv4-in-IPv6 form.\<close>

definition v4InV6Prefix :: "byte list" where
  "v4InV6Prefix = [0, 0, 0, 0, 0, 0, 0, 0, 0, 0, 0xff, 0xff]"

definition IP_Equal :: "byte list \<Rightarrow> byte list \<Rightarrow> bool" where
  "IP_Equal ip x =
     (if length ip = length x then ip = x
      else if length ip = 4 \<and> length x = 16 then take 12 x = v4InV6Prefix \<and> ip = drop 12 x
      else if length ip = 16 \<and> length x = 4 then take 12 ip = v4InV6Prefix \<and> drop 12 ip = x
      else False)"

text \<open>\<open>node.Addr.IP\<close>: dereferencing a nil \<open>Addr\<close> panics.\<close>

definition Addr_IP :: "Node \<Rightarrow> panic + byte list" where
  "Addr_IP node = (case Addr node of None \<Rightarrow> Inl NilDereference | Some a \<Rightarrow> Inr (IP a))"

text \<open>\<open>func (n Node) Equals(w2 Node) bool\<close>\<close>

definition Equals :: "Node \<Rightarrow> Node \<Rightarrow> panic + bool" where
  "Equals n w2 =
     (case Addr_IP n of Inl p \<Rightarrow> Inl p
      | Inr ip \<Rightarrow> (case Addr_IP w2 of Inl p \<Rightarrow> Inl p | Inr ip2 \<Rightarrow> Inr (IP_Equal ip ip2)))"

subsection \<open>The registry: updateNode and find\<close>

text \<open>
  \<open>func (s *Server) updateNode(node2 Node)\<close>. The loop \<open>for i, node := range s.nodes\<close>
  is \<open>updateNode_range\<close>: \<open>i\<close> is the index reached and the third argument the
  elements still to visit. A match stores \<open>node2\<close> at \<open>i\<close> and returns; running off the
  end appends. Both \<open>node.Addr\<close> and \<open>node2.Addr\<close> are dereferenced in each iteration.
\<close>

fun updateNode_range :: "Nodes \<Rightarrow> nat \<Rightarrow> Nodes \<Rightarrow> Node \<Rightarrow> panic + Nodes" where
  "updateNode_range ns i [] node2 = Inr (ns @ [node2])"
| "updateNode_range ns i (node # rest) node2 =
     (case Addr_IP node of Inl p \<Rightarrow> Inl p
      | Inr ip \<Rightarrow>
         (case Addr_IP node2 of Inl p \<Rightarrow> Inl p
          | Inr ip2 \<Rightarrow>
             if IP_Equal ip ip2 then Inr (ns[i := node2])
             else updateNode_range ns (Suc i) rest node2))"

definition updateNode :: "Server \<Rightarrow> Node \<Rightarrow> panic + Server" where
  "updateNode s node2 =
     (case updateNode_range (nodes s) 0 (nodes s) node2 of
        Inl p \<Rightarrow> Inl p
      | Inr ns \<Rightarrow> Inr (s\<lparr>nodes := ns\<rparr>))"

text \<open>A sequence of \<open>updateNode\<close> calls, in order; a panic ends the run.\<close>

fun updateNodes :: "Server \<Rightarrow> Node list \<Rightarrow> panic + Server" where
  "updateNodes s [] = Inr s"
| "updateNodes s (node2 # rest) =
     (case updateNode s node2 of Inl p \<Rightarrow> Inl p | Inr s' \<Rightarrow> updateNodes s' rest)"

text \<open>\<open>func (n Nodes) find(addr net.IP) Node\<close>\<close>

fun Nodes_find :: "Nodes \<Rightarrow> byte list \<Rightarrow> panic + Node" where
  "Nodes_find [] addr = Inr zero_Node"
| "Nodes_find (node # rest) addr =
     (case Addr_IP node of Inl p \<Rightarrow> Inl p
      | Inr ip \<Rightarrow> if IP_Equal ip addr then Inr node else Nodes_find rest addr)"

text \<open>The node most recently passed to \<open>updateNode\<close> whose IP equals \<open>addr\<close>, if any.\<close>

definition has_IP :: "byte list \<Rightarrow> Node \<Rightarrow> bool" where
  "has_IP addr node = (case Addr node of None \<Rightarrow> False | Some a \<Rightarrow> IP_Equal (IP a) addr)"

definition last_updated :: "Node list \<Rightarrow> byte list \<Rightarrow> Node option" where
  "last_updated upd addr = List.find (has_IP addr) (rev upd)"

text \<open>No two entries of a registry have equal IPs.\<close>

fun one_per_IP :: "Nodes \<Rightarrow> bool" where
  "one_per_IP [] = True"
| "one_per_IP (node # rest) = (list_all (\<lambda>m. Equals node m = Inr False) rest \<and> one_per_IP rest)"

text \<open>Every node of a list has an address (\<open>Addr\<close> is not nil).\<close>

definition addressed :: "Node \<Rightarrow> bool" where
  "addressed n = (Addr n \<noteq> None)"

subsection \<open>Messages, tasks and results\<close>

text \<open>Modelled from the spec: the declaration of \<open>Operation\<close> is not among the sources; the
  code names \<open>OperationTransferAcknowledge\<close>, \<open>OperationTransferFailed\<close> and
  \<open>OperationJobResult\<close>, the spec lists the closed enumeration.\<close>

datatype Operation =
    OperationStatus
  | OperationJobTransfer
  | OperationTransferAcknowledge
  | OperationTransferFailed
  | OperationJobExecute
  | OperationJobResult

text \<open>Modelled from the spec: the declaration of \<open>Message\<close> is not among the sources; the
  code uses its fields \<open>Operation\<close>, \<open>Name\<close>, \<open>Data\<close> and \<open>NodeInfo\<close> (\<open>Message_Name\<close>
  and \<open>Message_NodeInfo\<close> here).\<close>

record Message =
  Operation :: Operation
  Message_Name :: string
  Data :: "byte list"
  Message_NodeInfo :: NodeInfo

text \<open>Modelled from the spec: the declarations of \<open>Task\<close> and \<open>Result\<close> are not among
  the sources. A task is identified by its \<open>UUID\<close> (\<open>Task_UUID\<close> here) and carries an
  opaque payload; a result carries the \<open>UUID\<close> of its task and an error text, empty on
  success. The code builds \<open>Result{UUID: task.UUID, Error: errMsg}\<close>.\<close>

record Task =
  Task_UUID :: string
  Payload :: "byte list"

record Result =
  UUID :: string
  Error :: string

text \<open>\<open>[]byte(s)\<close>\<close>

definition bytes_of :: "string \<Rightarrow> byte list" where
  "bytes_of s = map of_char s"

subsection \<open>The handlers' environment\<close>

text \<open>
  The handlers call functions of the repository that are not among the sources. They are
  parameters of the model, gathered in \<open>Env\<close>: each maps its arguments to what the call
  returns (an \<open>error\<close> is \<open>None\<close> for nil and its message otherwise; a pair of a value
  and an error is a sum). A pointer to a connection is an address, as in \<open>Node\<close>.
\<close>

record Env =
  createFolderIfNotExist :: "string \<Rightarrow> string option"
  saveBinary :: "string \<Rightarrow> byte list \<Rightarrow> string option"
  sendWithConn :: "nat option \<Rightarrow> Message \<Rightarrow> string option"
  decodeTask :: "byte list \<Rightarrow> string + Task"
  runLocalJob :: "Task \<Rightarrow> string + Result"
  encode :: "Result \<Rightarrow> string + byte list"

text \<open>
  What a handler does to the world, in order: the calls that act on the file system, the
  connection and the job, the lines it logs (\<open>logger.Infoln\<close>, \<open>logger.Errorln\<close>,
  \<open>logger.Println\<close> with their arguments), and its assignments to \<open>s.Status\<close>.
  \<open>RunLocalJob\<close> carries the server as it is while \<open>runLocalJob\<close> runs.
\<close>

datatype Level = Infoln | Errorln | Println

datatype Event =
    Log Level "string list"
  | CreateFolder string
  | SaveBinary string "byte list"
  | Send "nat option" Message
  | SetStatus Status
  | RunLocalJob Server Task
  | Encode Result

text \<open>\<open>func respondTransferError(s *Server, conn *Conn, errMsg string)\<close>\<close>

definition respondTransferError :: "Env \<Rightarrow> nat option \<Rightarrow> string \<Rightarrow> Event list" where
  "respondTransferError env conn errMsg =
     (let m = \<lparr>Operation = OperationTransferFailed, Message_Name = [], Data = bytes_of errMsg,
                Message_NodeInfo = zero_NodeInfo\<rparr>
      in case sendWithConn env conn m of
           None \<Rightarrow> [Send conn m]
         | Some err \<Rightarrow>
             [Send conn m,
              Log Errorln [''An additional error arose while reporting the transfer error:'', err]])"

text \<open>\<open>func jobTransferCallback(s *Server, conn *Conn, msg Message)\<close>. The server is not
  assigned to; the handler's result is its trace.\<close>

definition jobTransferCallback :: "Env \<Rightarrow> Server \<Rightarrow> nat option \<Rightarrow> Message \<Rightarrow> Server \<times> Event list" where
  "jobTransferCallback env s conn msg =
     (let start = [Log Infoln [''Starting job transfer from node'', Message_Name msg]];
          folderPath = ''.beekeeper''
      in case createFolderIfNotExist env folderPath of
           Some err \<Rightarrow>
             (s, start @ [CreateFolder folderPath,
                          Log Println [''Unable to create beekeeper folder:'', err]]
                  @ respondTransferError env conn err)
         | None \<Rightarrow>
             if length (Data msg) = 0 then
               (s, start @ [CreateFolder folderPath,
                            Log Errorln [''Unable to save job data: empty data field'']]
                    @ respondTransferError env conn ''empty data field'')
             else
               (let binPath = folderPath @ ''/job.bin''
                in case saveBinary env binPath (Data msg) of
                     Some err \<Rightarrow>
                       (s, start @ [CreateFolder folderPath, SaveBinary binPath (Data msg),
                                    Log Errorln [''Unable to save job data:'', err]]
                            @ respondTransferError env conn err)
                   | None \<Rightarrow>
                       (let ack = \<lparr>Operation = OperationTransferAcknowledge, Message_Name = [],
                                    Data = [], Message_NodeInfo = zero_NodeInfo\<rparr>
                        in case sendWithConn env conn ack of
                             Some err \<Rightarrow>
                               (s, start @ [CreateFolder folderPath, SaveBinary binPath (Data msg),
                                            Send conn ack,
                                            Log Println [''Failed to acknowledge transfer:'', err]])
                           | None \<Rightarrow>
                               (s, start @ [CreateFolder folderPath, SaveBinary binPath (Data msg),
                                            Send conn ack,
                                            Log Println [''Job transferred successfully from node'',
                                                         Message_Name msg]]))))"

text \<open>\<open>func jobExecuteCallback(s *Server, conn *Conn, msg Message)\<close>\<close>

definition jobExecuteCallback :: "Env \<Rightarrow> Server \<Rightarrow> nat option \<Rightarrow> Message \<Rightarrow> Server \<times> Event list" where
  "jobExecuteCallback env s conn msg =
     (case decodeTask env (Data msg) of
        Inl err \<Rightarrow> (s, [Log Errorln [''Unable to read task data:'', err]])
      | Inr task \<Rightarrow>
          (let tr1 = [Log Infoln [''Executing task'', Task_UUID task, ''for node'', Message_Name msg]];
               s1 = s\<lparr>Server_Status := StatusWorking\<rparr>;
               tr2 = tr1 @ [SetStatus StatusWorking, RunLocalJob s1 task];
               (res, tr3) =
                 (case runLocalJob env task of
                    Inl err \<Rightarrow>
                      (let errMsg = ''Unable to run job: '' @ err
                       in (\<lparr>UUID = Task_UUID task, Error = errMsg\<rparr>, tr2 @ [Log Errorln [errMsg]]))
                  | Inr res \<Rightarrow> (res, tr2));
               tr4 = tr3 @ [Log Infoln [''Ran task'', Task_UUID task, ''successfully'']];
               s2 = s1\<lparr>Server_Status := StatusIDLE\<rparr>;
               tr5 = tr4 @ [SetStatus StatusIDLE, Encode res]
           in case encode env res of
                Inl err \<Rightarrow> (s2, tr5 @ [Log Errorln [''Unable to encode response:'', err]])
              | Inr resBytes \<Rightarrow>
                  (let m = \<lparr>Operation = OperationJobResult, Message_Name = [], Data = resBytes,
                             Message_NodeInfo = zero_NodeInfo\<rparr>
                   in case sendWithConn env conn m of
                        Some err \<Rightarrow> (s2, tr5 @ [Send conn m, Log Errorln [''Failed to send job result:'', err]])
                      | None \<Rightarrow> (s2, tr5 @ [Send conn m]))))"

text \<open>Projections of a trace: the messages sent, the binaries saved, the results handed
  to \<open>encode\<close>, and the assignments to \<open>s.Status\<close> together with the job runs.\<close>

fun sent :: "Event list \<Rightarrow> Message list" where
  "sent [] = []"
| "sent (Send conn m # tr) = m # sent tr"
| "sent (e # tr) = sent tr"

fun saved :: "Event list \<Rightarrow> (string \<times> byte list) list" where
  "saved [] = []"
| "saved (SaveBinary path d # tr) = (path, d) # saved tr"
| "saved (e # tr) = saved tr"

fun produced :: "Event list \<Rightarrow> Result list" where
  "produced [] = []"
| "produced (Encode res # tr) = res # produced tr"
| "produced (e # tr) = produced tr"

fun status_history :: "Event list \<Rightarrow> Event list" where
  "status_history [] = []"
| "status_history (SetStatus st # tr) = SetStatus st # status_history tr"
| "status_history (RunLocalJob s task # tr) = RunLocalJob s task # status_history tr"
| "status_history (e # tr) = status_history tr"

text \<open>The server as it is during each job run of a trace.\<close>

fun running :: "Event list \<Rightarrow> Server list" where
  "running [] = []"
| "running (RunLocalJob s task # tr) = s # running tr"
| "running (e # tr) = running tr"

subsection \<open>ExecuteMany\<close>

text \<open>
  \<open>Execute\<close> is not among the sources; it is a parameter. One invocation either never
  returns (\<open>None\<close>; it may block when no timeout is given), or returns an error
  (\<open>Some (Inl err)\<close>) or a result (\<open>Some (Inr res)\<close>). The variadic \<open>timeout\<close> is a list
  of durations, passed on unchanged.
\<close>

type_synonym Execute = "Node \<Rightarrow> Task \<Rightarrow> int list \<Rightarrow> (string + Result) option"

text \<open>What a goroutine started by \<open>ExecuteMany\<close> sends, and on which channel.\<close>

datatype Offer = ToErrChan string | ToResultsChan Result

text \<open>The body of the goroutine: \<open>fmt.Errorf("node %s error: %s", node.Name, err.Error())\<close>
  goes to \<open>errChan\<close>, a result to \<open>resultsChan\<close>; a goroutine whose \<open>Execute\<close> never
  returns sends nothing.\<close>

definition goroutine :: "Execute \<Rightarrow> Task \<Rightarrow> int list \<Rightarrow> Node \<Rightarrow> Offer option" where
  "goroutine exec t timeout node =
     (case exec node t timeout of
        None \<Rightarrow> None
      | Some (Inl err) \<Rightarrow> Some (ToErrChan (''node '' @ Name node @ '' error: '' @ err))
      | Some (Inr res) \<Rightarrow> Some (ToResultsChan res))"

text \<open>One goroutine per node: everything that will ever be sent on the two channels.\<close>

definition offers :: "Execute \<Rightarrow> Nodes \<Rightarrow> Task \<Rightarrow> int list \<Rightarrow> Offer list" where
  "offers exec n t timeout = List.map_filter (goroutine exec t timeout) n"

text \<open>
  What \<open>ExecuteMany\<close> returns: the results and the error (\<open>None\<close> is nil), or nothing
  when the loop blocks for ever in \<open>select\<close>.
\<close>

datatype Outcome = Returned "Result list" "string option" | Blocked

text \<open>
  The loop \<open>for len(results) != len(n) { select { ... } }\<close>. Both channels are
  unbuffered, so each goroutine's send completes when the loop receives it; \<open>arrivals\<close>
  is the order in which the \<open>select\<close> receives the sends, chosen by the scheduler. An
  error returns \<open>nil, err\<close> at once; with nothing left to receive the loop blocks.
\<close>

fun collect :: "nat \<Rightarrow> Offer list \<Rightarrow> Result list \<Rightarrow> Outcome" where
  "collect len_n [] results = (if length results \<noteq> len_n then Blocked else Returned results None)"
| "collect len_n (a # arrivals) results =
     (if length results \<noteq> len_n then
        (case a of
           ToErrChan err \<Rightarrow> Returned [] (Some err)
         | ToResultsChan res \<Rightarrow> collect len_n arrivals (results @ [res]))
      else Returned results None)"

text \<open>\<open>func (s *Server) ExecuteMany(n Nodes, t Task, timeout ...time.Duration)\<close>, for the
  arrival order \<open>arrivals\<close>.\<close>

definition ExecuteMany :: "Nodes \<Rightarrow> Task \<Rightarrow> int list \<Rightarrow> Offer list \<Rightarrow> Outcome" where
  "ExecuteMany n t timeout arrivals = collect (length n) arrivals []"

text \<open>The arrival orders the scheduler can produce: the goroutines' sends, in any order.\<close>

definition schedule :: "Execute \<Rightarrow> Nodes \<Rightarrow> Task \<Rightarrow> int list \<Rightarrow> Offer list \<Rightarrow> bool" where
  "schedule exec n t timeout arrivals = (mset arrivals = mset (offers exec n t timeout))"

text \<open>An invocation of \<open>Execute\<close> succeeds when it returns and \<open>err == nil\<close>, the
  test of the goroutine.\<close>

definition succeeds :: "Execute \<Rightarrow> Task \<Rightarrow> int list \<Rightarrow> Node \<Rightarrow> bool" where
  "succeeds exec t timeout node =
     (case exec node t timeout of Some (Inr res) \<Rightarrow> True | _ \<Rightarrow> False)"

text \<open>The results the invocations of \<open>Execute\<close> return, in the order of the nodes.\<close>

definition returned :: "Execute \<Rightarrow> Nodes \<Rightarrow> Task \<Rightarrow> int list \<Rightarrow> Result list" where
  "returned exec n t timeout =
     List.map_filter (\<lambda>node. case exec node t timeout of Some (Inr res) \<Rightarrow> Some res | _ \<Rightarrow> None) n"

subsection \<open>sort\<close>

text \<open>\<open>bytes.Compare\<close> of the Go standard library: the lexicographic comparison of two
  byte slices, -1, 0 or 1.\<close>

fun bytes_Compare :: "byte list \<Rightarrow> byte list \<Rightarrow> int" where
  "bytes_Compare [] [] = 0"
| "bytes_Compare [] (y # ys) = - 1"
| "bytes_Compare (x # xs) [] = 1"
| "bytes_Compare (x # xs) (y # ys) =
     (if x < y then - 1 else if y < x then 1 else bytes_Compare xs ys)"

text \<open>The function handed to \<open>sort.Slice\<close>:
  \<open>bytes.Compare(n[i].Addr.IP, n[j].Addr.IP) < 0\<close>.\<close>

definition sort_less :: "Node \<Rightarrow> Node \<Rightarrow> panic + bool" where
  "sort_less a b =
     (case Addr_IP a of Inl p \<Rightarrow> Inl p
      | Inr x \<Rightarrow> (case Addr_IP b of Inl p \<Rightarrow> Inl p | Inr y \<Rightarrow> Inr (bytes_Compare x y < 0)))"

text \<open>
  \<open>sort.Slice\<close> of the Go standard library, from its documentation: it sorts the slice
  given the \<open>less\<close> function, and the sort is not guaranteed to be stable (equal elements
  may be reversed from their original order). Its algorithm is not part of the
  repository and differs between Go releases, so the model is the relation between the
  slice before and after (\<open>lt\<close> is the \<open>less\<close> function): the same elements, and
  no element stands before one that is less than it.
\<close>

definition sort_Slice :: "('a \<Rightarrow> 'a \<Rightarrow> bool) \<Rightarrow> 'a list \<Rightarrow> 'a list \<Rightarrow> bool" where
  "sort_Slice lt xs ys = (mset ys = mset xs \<and> sorted_wrt (\<lambda>a b. \<not> lt b a) ys)"

text \<open>
  \<open>func (n Nodes) sort() Nodes\<close>. With fewer than two elements \<open>less\<close> is never
  called; with two or more every element is compared, and a nil \<open>Addr\<close> panics.
\<close>

definition Nodes_sort :: "Nodes \<Rightarrow> panic + Nodes \<Rightarrow> bool" where
  "Nodes_sort n out =
     (if 2 \<le> length n \<and> \<not> list_all addressed n then out = Inl NilDereference
      else (case out of
              Inl p \<Rightarrow> False
            | Inr ys \<Rightarrow> sort_Slice (\<lambda>a b. sort_less a b = Inr True) n ys))"

text \<open>The result is non-decreasing under \<open>bytes.Compare\<close> of the IPs.\<close>

definition nondecreasing :: "Nodes \<Rightarrow> bool" where
  "nondecreasing ys =
     sorted_wrt (\<lambda>a b. case (Addr a, Addr b) of
                          (Some x, Some y) \<Rightarrow> bytes_Compare (IP x) (IP y) \<le> 0
                        | _ \<Rightarrow> False) ys"

text \<open>Stability: for every IP of the input, the nodes with that IP (bytewise) are in
  the same order before and after.\<close>

definition same_IP_bytes :: "Node \<Rightarrow> Node \<Rightarrow> bool" where
  "same_IP_bytes a b =
     (case (Addr a, Addr b) of (Some x, Some y) \<Rightarrow> bytes_Compare (IP x) (IP y) = 0 | _ \<Rightarrow> False)"

definition keeps_order_of_equals :: "Nodes \<Rightarrow> Nodes \<Rightarrow> bool" where
  "keeps_order_of_equals n ys =
     list_all (\<lambda>a. filter (same_IP_bytes a) ys = filter (same_IP_bytes a) n) n"

subsection \<open>Example values\<close>

definition example_Server :: Server where
  "example_Server = \<lparr>nodes = [], Server_Status = StatusIDLE\<rparr>"

definition node_A :: Node where
  "node_A = \<lparr>Conn = Some 1, Addr = Some \<lparr>IP = [10, 0, 0, 1], Port = 2020, Zone = []\<rparr>,
     Name = ''A'', Status = StatusIDLE, Info = zero_NodeInfo\<rparr>"

definition node_B :: Node where
  "node_B = \<lparr>Conn = Some 2,
     Addr = Some \<lparr>IP = [0, 0, 0, 0, 0, 0, 0, 0, 0, 0, 0xff, 0xff, 10, 0, 0, 1], Port = 2021, Zone = []\<rparr>,
     Name = ''B'', Status = StatusWorking, Info = zero_NodeInfo\<rparr>"

definition node_C :: Node where
  "node_C = \<lparr>Conn = Some 3, Addr = Some \<lparr>IP = [10, 0, 0, 2], Port = 2020, Zone = []\<rparr>,
     Name = ''C'', Status = StatusIDLE, Info = zero_NodeInfo\<rparr>"

definition node_D :: Node where
  "node_D = \<lparr>Conn = Some 4, Addr = Some \<lparr>IP = [10, 0, 0, 3], Port = 2020, Zone = []\<rparr>,
     Name = ''D'', Status = StatusIDLE, Info = zero_NodeInfo\<rparr>"

definition example_Env :: Env where
  "example_Env = \<lparr>
     createFolderIfNotExist = (\<lambda>path. None),
     saveBinary = (\<lambda>path d. None),
     sendWithConn = (\<lambda>conn m. None),
     decodeTask = (\<lambda>d. if d = [] then Inl ''EOF'' else Inr \<lparr>Task_UUID = ''t-1'', Payload = d\<rparr>),
     runLocalJob = (\<lambda>t. Inl ''exit status 1''),
     encode = (\<lambda>r. Inr (bytes_of (UUID r)))\<rparr>"

definition example_Message :: "byte list \<Rightarrow> Message" where
  "example_Message d = \<lparr>Operation = OperationJobTransfer, Message_Name = ''queen'', Data = d,
     Message_NodeInfo = zero_NodeInfo\<rparr>"

definition example_Task :: Task where
  "example_Task = \<lparr>Task_UUID = ''t-1'', Payload = [1, 2, 3]\<rparr>"

definition example_Execute :: Execute where
  "example_Execute node t timeout =
     (if Name node = ''C'' then Some (Inl ''connection reset'')
      else if Name node = ''D'' then None
      else Some (Inr \<lparr>UUID = Task_UUID t, Error = []\<rparr>))"

text \<open>An \<open>Execute\<close> that returns, with a nil error, the result of another task.\<close>

definition stale_Execute :: Execute where
  "stale_Execute node t timeout = Some (Inr \<lparr>UUID = ''t-0'', Error = []\<rparr>)"

definition example_node :: "string \<Rightarrow> byte \<Rightarrow> Node" where
  "example_node name b = \<lparr>Conn = None, Addr = Some \<lparr>IP = [10, 0, 0, b], Port = 2020, Zone = []\<rparr>,
     Name = name, Status = StatusIDLE, Info = zero_NodeInfo\<rparr>"

definition unsorted_Nodes :: Nodes where
  "unsorted_Nodes = [example_node ''a'' 2, example_node ''b'' 2, example_node ''c'' 2,
     example_node ''x'' 1, example_node ''d'' 2, example_node ''e'' 2, example_node ''y'' 1,
     example_node ''f'' 2, example_node ''g'' 2, example_node ''z'' 1, example_node ''h'' 2,
     example_node ''i'' 2, example_node ''j'' 2]"

definition sorted_Nodes :: Nodes where
  "sorted_Nodes = [example_node ''y'' 1, example_node ''x'' 1, example_node ''z'' 1,
     example_node ''b'' 2, example_node ''c'' 2, example_node ''d'' 2, example_node ''e'' 2,
     example_node ''a'' 2, example_node ''f'' 2, example_node ''g'' 2, example_node ''h'' 2,
     example_node ''i'' 2, example_node ''j'' 2]"

subsection \<open>Proof devices\<close>

text \<open>\<open>IP.Equal\<close> is equality of canonical forms: the 16-byte IPv4-in-IPv6 form of an
  address is replaced by its 4 bytes.\<close>

definition canon_IP :: "byte list \<Rightarrow> byte list" where
  "canon_IP a = (if length a = 16 \<and> take 12 a = v4InV6Prefix then drop 12 a else a)"

definition ipkey :: "Node \<Rightarrow> byte list" where
  "ipkey n = (case Addr n of None \<Rightarrow> [] | Some a \<Rightarrow> canon_IP (IP a))"

definition registry_inv :: "Nodes \<Rightarrow> bool" where
  "registry_inv ns = (list_all addressed ns \<and> distinct (map ipkey ns))"

text \<open>The results among the arrivals, in order, and whether an arrival is an error.\<close>

fun results_of :: "Offer list \<Rightarrow> Result list" where
  "results_of [] = []"
| "results_of (ToResultsChan res # arrivals) = res # results_of arrivals"
| "results_of (ToErrChan err # arrivals) = results_of arrivals"

fun is_error :: "Offer \<Rightarrow> bool" where
  "is_error (ToErrChan err) = True"
| "is_error (ToResultsChan res) = False"

text \<open>The IP of a node that has an address.\<close>

definition raw_IP :: "Node \<Rightarrow> byte list" where
  "raw_IP a = (case Addr a of None \<Rightarrow> [] | Some x \<Rightarrow> IP x)"

section \<open>Properties of the registry\<close>

lemma take_drop_eq: "take n a = p \<Longrightarrow> take n b = p \<Longrightarrow> drop n a = drop n b \<Longrightarrow> a = b"
  by (metis append_take_drop_id)

lemma IP_Equal_canon: "IP_Equal a b \<longleftrightarrow> canon_IP a = canon_IP b"
  unfolding IP_Equal_def canon_IP_def
  by (auto dest: take_drop_eq arg_cong[where f=length])

lemma Addr_IP_addressed: "addressed n \<Longrightarrow> Addr_IP n = Inr (IP (the (Addr n)))"
  by (auto simp: addressed_def Addr_IP_def)

lemma IP_Equal_ipkey:
  "addressed n \<Longrightarrow> addressed m \<Longrightarrow> IP_Equal (IP (the (Addr n))) (IP (the (Addr m))) \<longleftrightarrow> ipkey n = ipkey m"
  by (auto simp: addressed_def ipkey_def IP_Equal_canon)

lemma Equals_ipkey: "addressed n \<Longrightarrow> addressed m \<Longrightarrow> Equals n m = Inr (ipkey n = ipkey m)"
  by (simp add: Equals_def Addr_IP_addressed IP_Equal_ipkey)

lemma has_IP_ipkey: "addressed n \<Longrightarrow> has_IP addr n \<longleftrightarrow> ipkey n = canon_IP addr"
  by (auto simp: addressed_def has_IP_def ipkey_def IP_Equal_canon)

lemma one_per_IP_distinct:
  "list_all addressed ns \<Longrightarrow> one_per_IP ns \<longleftrightarrow> distinct (map ipkey ns)"
  by (induction ns) (auto simp: Equals_ipkey list_all_iff)

lemma updateNode_range_append:
  "list_all addressed rest \<Longrightarrow> addressed node2 \<Longrightarrow> ipkey node2 \<notin> ipkey ` set rest \<Longrightarrow>
   updateNode_range ns i rest node2 = Inr (ns @ [node2])"
  by (induction rest arbitrary: i) (auto simp: Addr_IP_addressed IP_Equal_ipkey)

lemma updateNode_range_replace:
  "list_all addressed rest \<Longrightarrow> addressed node2 \<Longrightarrow> k < length rest \<Longrightarrow>
   ipkey (rest ! k) = ipkey node2 \<Longrightarrow> distinct (map ipkey rest) \<Longrightarrow>
   updateNode_range ns i rest node2 = Inr (ns[i + k := node2])"
proof (induction rest arbitrary: i k)
  case Nil
  then show ?case by simp
next
  case (Cons node rest)
  show ?case
  proof (cases k)
    case 0
    with Cons.prems show ?thesis
      by (simp add: Addr_IP_addressed IP_Equal_ipkey)
  next
    case (Suc k')
    with Cons.prems have ne: "ipkey node \<noteq> ipkey node2"
      by (metis distinct.simps(2) list.simps(9) nth_Cons_Suc nth_mem length_Cons Suc_less_eq image_eqI list.set_map)
    from Cons.prems Suc have "updateNode_range ns (Suc i) rest node2 = Inr (ns[Suc i + k' := node2])"
      by (intro Cons.IH) auto
    with Cons.prems ne Suc show ?thesis
      by (simp add: Addr_IP_addressed IP_Equal_ipkey)
  qed
qed

lemma Nodes_find_ipkey:
  "list_all addressed ns \<Longrightarrow>
   Nodes_find ns addr = Inr (case List.find (\<lambda>n. ipkey n = canon_IP addr) ns of None \<Rightarrow> zero_Node | Some n \<Rightarrow> n)"
  by (induction ns) (auto simp: Addr_IP_addressed addressed_def ipkey_def IP_Equal_canon)

lemma find_distinct_key:
  "distinct (map f xs) \<Longrightarrow> i < length xs \<Longrightarrow> List.find (\<lambda>x. f x = f (xs ! i)) xs = Some (xs ! i)"
proof (induction xs arbitrary: i)
  case Nil
  then show ?case by simp
next
  case (Cons x xs)
  then show ?case by (cases i) (auto simp: image_iff)
qed

lemma find_update_other:
  "\<not> P (xs ! i) \<Longrightarrow> \<not> P y \<Longrightarrow> i < length xs \<Longrightarrow> List.find P (xs[i := y]) = List.find P xs"
proof (induction xs arbitrary: i)
  case Nil
  then show ?case by simp
next
  case (Cons x xs)
  then show ?case by (cases i) auto
qed

lemma find_append_single:
  "List.find P (xs @ [y]) = (case List.find P xs of Some x \<Rightarrow> Some x | None \<Rightarrow> if P y then Some y else None)"
  by (induction xs) auto

lemma find_None_key: "k \<notin> f ` set xs \<Longrightarrow> List.find (\<lambda>x. f x = k) xs = None"
  by (auto simp: find_None_iff)

lemma updateNode_append:
  assumes "list_all addressed (nodes s)" "addressed node2" "ipkey node2 \<notin> ipkey ` set (nodes s)"
  shows "updateNode s node2 = Inr (s\<lparr>nodes := nodes s @ [node2]\<rparr>)"
  using assms by (simp add: updateNode_def updateNode_range_append)

lemma updateNode_replace:
  assumes "list_all addressed (nodes s)" "addressed node2" "distinct (map ipkey (nodes s))"
    "i < length (nodes s)" "ipkey (nodes s ! i) = ipkey node2"
  shows "updateNode s node2 = Inr (s\<lparr>nodes := (nodes s)[i := node2]\<rparr>)"
  using assms updateNode_range_replace[of "nodes s" node2 i "nodes s" 0]
  by (simp add: updateNode_def)

lemma map_ipkey_update:
  "i < length ns \<Longrightarrow> ipkey (ns ! i) = ipkey node2 \<Longrightarrow> map ipkey (ns[i := node2]) = map ipkey ns"
  by (simp add: map_update list_update_same_conv)

lemma updateNode_step:
  assumes inv: "registry_inv (nodes s)" and a: "addressed node2"
  shows "\<exists>s'. updateNode s node2 = Inr s' \<and> registry_inv (nodes s') \<and>
           (\<forall>k. List.find (\<lambda>n. ipkey n = k) (nodes s') = List.find (\<lambda>n. ipkey n = k) (node2 # nodes s))"
proof (cases "ipkey node2 \<in> ipkey ` set (nodes s)")
  case False
  let ?s' = "s\<lparr>nodes := nodes s @ [node2]\<rparr>"
  from inv a False have u: "updateNode s node2 = Inr ?s'"
    by (simp add: registry_inv_def updateNode_append)
  from inv a False have i: "registry_inv (nodes ?s')"
    by (simp add: registry_inv_def)
  have "List.find (\<lambda>n. ipkey n = k) (nodes ?s') = List.find (\<lambda>n. ipkey n = k) (node2 # nodes s)" for k
    using False by (auto simp: find_append_single find_None_key split: option.splits)
  with u i show ?thesis by blast
next
  case True
  then obtain i where i: "i < length (nodes s)" "ipkey (nodes s ! i) = ipkey node2"
    by (auto simp: in_set_conv_nth)
  let ?ns = "(nodes s)[i := node2]"
  let ?s' = "s\<lparr>nodes := ?ns\<rparr>"
  from inv a i have u: "updateNode s node2 = Inr ?s'"
    by (simp add: registry_inv_def updateNode_replace)
  have keys: "map ipkey ?ns = map ipkey (nodes s)"
    using i by (rule map_ipkey_update)
  have "list_all addressed ?ns"
    using inv a by (auto simp: registry_inv_def list_all_iff dest: set_update_subset_insert[THEN subsetD])
  with inv keys have iv: "registry_inv (nodes ?s')"
    by (simp add: registry_inv_def)
  have "List.find (\<lambda>n. ipkey n = k) ?ns = List.find (\<lambda>n. ipkey n = k) (node2 # nodes s)" for k
  proof (cases "ipkey node2 = k")
    case True
    have "List.find (\<lambda>n. ipkey n = ipkey (?ns ! i)) ?ns = Some (?ns ! i)"
      using inv keys i by (intro find_distinct_key) (simp_all add: registry_inv_def)
    with True i show ?thesis by simp
  next
    case False
    with i show ?thesis by (simp add: find_update_other)
  qed
  with u iv show ?thesis by auto
qed

lemma find_append:
  "List.find P (xs @ ys) = (case List.find P xs of Some x \<Rightarrow> Some x | None \<Rightarrow> List.find P ys)"
  by (induction xs) auto

lemma updateNodes_reach:
  assumes "registry_inv (nodes s)" "list_all addressed upd"
  shows "\<exists>s'. updateNodes s upd = Inr s' \<and> registry_inv (nodes s') \<and>
           (\<forall>k. List.find (\<lambda>n. ipkey n = k) (nodes s') = List.find (\<lambda>n. ipkey n = k) (rev upd @ nodes s))"
  using assms
proof (induction upd arbitrary: s)
  case Nil
  then show ?case by simp
next
  case (Cons node2 upd)
  from Cons.prems obtain s1 where s1: "updateNode s node2 = Inr s1" "registry_inv (nodes s1)"
    "\<And>k. List.find (\<lambda>n. ipkey n = k) (nodes s1) = List.find (\<lambda>n. ipkey n = k) (node2 # nodes s)"
    using updateNode_step[of s node2] by auto
  from Cons.IH[OF s1(2)] Cons.prems obtain s' where s': "updateNodes s1 upd = Inr s'" "registry_inv (nodes s')"
    "\<And>k. List.find (\<lambda>n. ipkey n = k) (nodes s') = List.find (\<lambda>n. ipkey n = k) (rev upd @ nodes s1)"
    by auto
  have "List.find (\<lambda>n. ipkey n = k) (nodes s') = List.find (\<lambda>n. ipkey n = k) (rev (node2 # upd) @ nodes s)" for k
    using s'(3)[of k] s1(3)[of k] by (simp add: find_append split: option.splits)
  with s1(1) s'(1,2) show ?case by simp
qed

lemmas example_defs = example_Server_def node_A_def node_B_def node_C_def node_D_def
  addressed_def updateNode_def Addr_IP_def IP_Equal_def v4InV6Prefix_def Equals_def
  has_IP_def last_updated_def zero_Node_def zero_NodeInfo_def

lemma registry_inv_Nil: "nodes s = [] \<Longrightarrow> registry_inv (nodes s)"
  by (simp add: registry_inv_def)

lemma updateNode_range_Inr_addressed:
  "updateNode_range ns i (node # rest) node2 = Inr ns' \<Longrightarrow> addressed node \<and> addressed node2"
  by (auto simp: Addr_IP_def addressed_def split: option.splits)

lemma updateNode_range_length:
  "updateNode_range ns i rest node2 = Inr ns' \<Longrightarrow> length ns \<le> length ns'"
  by (induction rest arbitrary: i) (auto split: sum.splits if_splits)

lemma updateNode_Inr_nonempty:
  assumes "updateNode s node2 = Inr s'"
  shows "nodes s' \<noteq> []"
proof (cases "nodes s")
  case Nil
  with assms show ?thesis by (auto simp: updateNode_def)
next
  case (Cons node rest)
  from assms obtain ns' where "updateNode_range (nodes s) 0 (nodes s) node2 = Inr ns'" "nodes s' = ns'"
    by (auto simp: updateNode_def split: sum.splits)
  with Cons updateNode_range_length[of "nodes s" 0 "nodes s" node2 ns'] show ?thesis by auto
qed

lemma updateNode_Inr_addressed:
  assumes "updateNode s node2 = Inr s'" and "nodes s \<noteq> []"
  shows "addressed (hd (nodes s)) \<and> addressed node2"
proof -
  from assms(2) obtain node rest where c: "nodes s = node # rest" by (cases "nodes s") auto
  from assms(1) obtain ns' where "updateNode_range (nodes s) 0 (node # rest) node2 = Inr ns'"
    by (auto simp: updateNode_def c split: sum.splits)
  from updateNode_range_Inr_addressed[OF this] c show ?thesis by simp
qed

lemma updateNodes_Inr_addressed:
  "updateNodes s upd = Inr s' \<Longrightarrow> nodes s \<noteq> [] \<Longrightarrow> upd \<noteq> [] \<Longrightarrow>
   addressed (hd (nodes s)) \<and> list_all addressed upd"
proof (induction upd arbitrary: s)
  case Nil
  then show ?case by simp
next
  case (Cons node2 upd)
  from Cons.prems(1) obtain s1 where s1: "updateNode s node2 = Inr s1" "updateNodes s1 upd = Inr s'"
    by (auto split: sum.splits)
  from updateNode_Inr_addressed[OF s1(1) Cons.prems(2)] have a: "addressed (hd (nodes s))" "addressed node2"
    by simp_all
  show ?case
  proof (cases "upd = []")
    case True
    with a show ?thesis by simp
  next
    case False
    from Cons.IH[OF s1(2) updateNode_Inr_nonempty[OF s1(1)] False] a show ?thesis by simp
  qed
qed

lemma updateNodes_from_empty_addressed:
  assumes "nodes s0 = []" and "updateNodes s0 upd = Inr s" and "2 \<le> length upd"
  shows "list_all addressed upd"
proof -
  from assms(3) obtain node2 rest where u: "upd = node2 # rest" "rest \<noteq> []"
    by (cases upd) (auto simp: Suc_le_length_iff)
  with assms(2) obtain s1 where s1: "updateNode s0 node2 = Inr s1" "updateNodes s1 rest = Inr s"
    by (auto split: sum.splits)
  from s1(1) assms(1) have n: "nodes s1 = [node2]"
    by (auto simp: updateNode_def)
  from updateNodes_Inr_addressed[OF s1(2) _ u(2)] n u(1) show ?thesis by simp
qed

lemma updateNodes_short:
  assumes "nodes s0 = []" and "updateNodes s0 upd = Inr s" and "length upd < 2"
  shows "one_per_IP (nodes s)"
proof (cases upd)
  case Nil
  with assms show ?thesis by simp
next
  case (Cons node2 rest)
  with assms(3) have "rest = []" by simp
  with Cons assms(1,2) have "nodes s = [node2]"
    by (auto simp: updateNode_def)
  then show ?thesis by simp
qed

text \<open>
  Claim C1. Start from a server with an empty registry and call \<open>updateNode\<close> with any
  sequence of nodes. Whenever no call panics, the registry reached holds at most one
  entry per IP (\<open>Equals\<close> is false between any two entries). When every node of the
  sequence has an address no call panics, and in the registry reached a further
  \<open>updateNode\<close> of a node whose IP equals that of the entry at index \<open>i\<close> stores the
  node at \<open>i\<close>, every other position keeping its entry, while one of a node whose IP
  equals that of no entry appends it at the end.
\<close>

theorem updateNode_one_entry_per_IP:
  assumes "nodes s0 = []"
  shows "(\<forall>s. updateNodes s0 upd = Inr s \<longrightarrow> one_per_IP (nodes s)) \<and>
    (list_all addressed upd \<longrightarrow>
      (\<exists>s. updateNodes s0 upd = Inr s \<and>
        (\<forall>node2. addressed node2 \<longrightarrow>
          (\<forall>i<length (nodes s). Equals (nodes s ! i) node2 = Inr True \<longrightarrow>
             updateNode s node2 = Inr (s\<lparr>nodes := (nodes s)[i := node2]\<rparr>)) \<and>
          ((\<forall>i<length (nodes s). Equals (nodes s ! i) node2 = Inr False) \<longrightarrow>
             updateNode s node2 = Inr (s\<lparr>nodes := nodes s @ [node2]\<rparr>)))))"
proof (intro conjI allI impI)
  fix s
  assume r: "updateNodes s0 upd = Inr s"
  show "one_per_IP (nodes s)"
  proof (cases "2 \<le> length upd")
    case True
    from updateNodes_from_empty_addressed[OF assms r True] have "list_all addressed upd" .
    from updateNodes_reach[OF registry_inv_Nil[OF assms] this] r have "registry_inv (nodes s)"
      by auto
    then show ?thesis by (simp add: registry_inv_def one_per_IP_distinct)
  next
    case False
    then show ?thesis using updateNodes_short[OF assms r] by simp
  qed
next
  assume u: "list_all addressed upd"
  from updateNodes_reach[OF registry_inv_Nil[OF assms] u]
  obtain s where s: "updateNodes s0 upd = Inr s" "registry_inv (nodes s)" by blast
  then have a: "list_all addressed (nodes s)" and d: "distinct (map ipkey (nodes s))"
    by (simp_all add: registry_inv_def)
  have nth: "addressed (nodes s ! i)" if "i < length (nodes s)" for i
    using a that by (simp add: list_all_length)
  have rep: "updateNode s node2 = Inr (s\<lparr>nodes := (nodes s)[i := node2]\<rparr>)"
    if "addressed node2" "i < length (nodes s)" "Equals (nodes s ! i) node2 = Inr True" for node2 i
    using that a d nth[of i] by (intro updateNode_replace) (simp_all add: Equals_ipkey)
  have app: "updateNode s node2 = Inr (s\<lparr>nodes := nodes s @ [node2]\<rparr>)"
    if "addressed node2" "\<forall>i<length (nodes s). Equals (nodes s ! i) node2 = Inr False" for node2
  proof (rule updateNode_append[OF a that(1)])
    show "ipkey node2 \<notin> ipkey ` set (nodes s)"
    proof
      assume "ipkey node2 \<in> ipkey ` set (nodes s)"
      then obtain i where i: "i < length (nodes s)" "ipkey (nodes s ! i) = ipkey node2"
        by (auto simp: in_set_conv_nth)
      with that nth[of i] show False by (auto simp: Equals_ipkey)
    qed
  qed
  from s(1) rep app
  show "\<exists>s. updateNodes s0 upd = Inr s \<and>
        (\<forall>node2. addressed node2 \<longrightarrow>
          (\<forall>i<length (nodes s). Equals (nodes s ! i) node2 = Inr True \<longrightarrow>
             updateNode s node2 = Inr (s\<lparr>nodes := (nodes s)[i := node2]\<rparr>)) \<and>
          ((\<forall>i<length (nodes s). Equals (nodes s ! i) node2 = Inr False) \<longrightarrow>
             updateNode s node2 = Inr (s\<lparr>nodes := nodes s @ [node2]\<rparr>)))"
    by blast
qed

theorem updateNode_one_entry_per_IP_witness:
  "nodes example_Server = [] \<and> list_all addressed [node_A, node_B, node_C] \<and>
   updateNodes example_Server [node_A, node_B, node_C] = Inr (example_Server\<lparr>nodes := [node_B, node_C]\<rparr>) \<and>
   one_per_IP [node_B, node_C] \<and>
   updateNode (example_Server\<lparr>nodes := [node_B, node_C]\<rparr>) node_A = Inr (example_Server\<lparr>nodes := [node_A, node_C]\<rparr>) \<and>
   updateNode (example_Server\<lparr>nodes := [node_B, node_C]\<rparr>) node_D =
     Inr (example_Server\<lparr>nodes := [node_B, node_C, node_D]\<rparr>)"
  using updateNode_one_entry_per_IP[of example_Server "[node_A, node_B, node_C]"]
  by (simp add: example_defs)


lemma find_reached:
  assumes "nodes s0 = []" and "list_all addressed upd"
  shows "\<exists>s. updateNodes s0 upd = Inr s \<and>
    Nodes_find (nodes s) addr = Inr (case last_updated upd addr of None \<Rightarrow> zero_Node | Some node \<Rightarrow> node)"
proof -
  from updateNodes_reach[OF registry_inv_Nil[OF assms(1)] assms(2)] assms(1)
  obtain s where s: "updateNodes s0 upd = Inr s" "registry_inv (nodes s)"
    "\<And>k. List.find (\<lambda>n. ipkey n = k) (nodes s) = List.find (\<lambda>n. ipkey n = k) (rev upd)"
    by auto
  have "List.find (has_IP addr) (rev upd) = List.find (\<lambda>n. ipkey n = canon_IP addr) (rev upd)"
    using assms(2) by (intro find_cong) (auto simp: has_IP_ipkey list_all_iff)
  then have l: "last_updated upd addr = List.find (\<lambda>n. ipkey n = canon_IP addr) (nodes s)"
    by (simp add: last_updated_def s(3))
  from s(2) have "Nodes_find (nodes s) addr =
      Inr (case last_updated upd addr of None \<Rightarrow> zero_Node | Some node \<Rightarrow> node)"
    by (simp add: l registry_inv_def Nodes_find_ipkey)
  with s(1) show ?thesis by blast
qed

text \<open>
  Claim C2. In the registry reached from an empty one by \<open>updateNode\<close> calls, whenever
  \<open>find addr\<close> returns, it returns the node most recently passed to \<open>updateNode\<close>
  whose IP equals \<open>addr\<close>, and the zero value \<open>Node{}\<close> when there is none. When
  every node passed has an address, neither the calls nor \<open>find\<close> panic: \<open>find\<close>
  returns the most recent node with that IP, and the zero value when no node with that
  IP was ever passed.
\<close>

theorem find_last_updated:
  assumes "nodes s0 = []"
  shows "(\<forall>s node. updateNodes s0 upd = Inr s \<longrightarrow> Nodes_find (nodes s) addr = Inr node \<longrightarrow>
            node = (case last_updated upd addr of None \<Rightarrow> zero_Node | Some m \<Rightarrow> m)) \<and>
    (list_all addressed upd \<longrightarrow>
      (\<exists>s. updateNodes s0 upd = Inr s \<and>
        Nodes_find (nodes s) addr = Inr (case last_updated upd addr of None \<Rightarrow> zero_Node | Some m \<Rightarrow> m) \<and>
        (list_all (\<lambda>n. \<not> has_IP addr n) upd \<longrightarrow> Nodes_find (nodes s) addr = Inr zero_Node)))"
proof (intro conjI allI impI)
  fix s node
  assume r: "updateNodes s0 upd = Inr s" and f: "Nodes_find (nodes s) addr = Inr node"
  show "node = (case last_updated upd addr of None \<Rightarrow> zero_Node | Some m \<Rightarrow> m)"
  proof (cases "list_all addressed upd")
    case True
    from find_reached[OF assms True, of addr] r f show ?thesis by auto
  next
    case False
    with updateNodes_from_empty_addressed[OF assms r] have "length upd < 2"
      by (cases "2 \<le> length upd") auto
    with False obtain z where z: "upd = [z]" "\<not> addressed z"
      by (cases upd) auto
    with r assms have "nodes s = [z]"
      by (auto simp: updateNode_def)
    with z(2) f show ?thesis
      by (simp add: Addr_IP_def addressed_def)
  qed
next
  assume u: "list_all addressed upd"
  from find_reached[OF assms u, of addr] obtain s where s: "updateNodes s0 upd = Inr s"
    "Nodes_find (nodes s) addr = Inr (case last_updated upd addr of None \<Rightarrow> zero_Node | Some m \<Rightarrow> m)"
    by blast
  have "last_updated upd addr = None" if "list_all (\<lambda>n. \<not> has_IP addr n) upd"
    using that by (auto simp: last_updated_def find_None_iff list_all_iff)
  with s show "\<exists>s. updateNodes s0 upd = Inr s \<and>
        Nodes_find (nodes s) addr = Inr (case last_updated upd addr of None \<Rightarrow> zero_Node | Some m \<Rightarrow> m) \<and>
        (list_all (\<lambda>n. \<not> has_IP addr n) upd \<longrightarrow> Nodes_find (nodes s) addr = Inr zero_Node)"
    by auto
qed

theorem find_last_updated_witness:
  "nodes example_Server = [] \<and> list_all addressed [node_A, node_B, node_C] \<and>
   updateNodes example_Server [node_A, node_B, node_C] = Inr (example_Server\<lparr>nodes := [node_B, node_C]\<rparr>) \<and>
   Nodes_find [node_B, node_C] [10, 0, 0, 1] = Inr node_B \<and>
   list_all (\<lambda>n. \<not> has_IP [10, 0, 0, 3] n) [node_A, node_B, node_C] \<and>
   Nodes_find [node_B, node_C] [10, 0, 0, 3] = Inr zero_Node"
  using find_last_updated[of example_Server "[node_A, node_B, node_C]" "[10, 0, 0, 1]"]
    find_last_updated[of example_Server "[node_A, node_B, node_C]" "[10, 0, 0, 3]"]
  by (simp add: example_defs)

section \<open>Properties of the handlers\<close>

lemma sent_append: "sent (xs @ ys) = sent xs @ sent ys"
  by (induction xs rule: sent.induct) auto

lemma saved_append: "saved (xs @ ys) = saved xs @ saved ys"
  by (induction xs rule: saved.induct) auto

lemma sent_respondTransferError:
  "sent (respondTransferError env conn errMsg) =
     [\<lparr>Operation = OperationTransferFailed, Message_Name = [], Data = bytes_of errMsg,
       Message_NodeInfo = zero_NodeInfo\<rparr>]"
  by (simp add: respondTransferError_def Let_def split: option.splits)

lemma saved_respondTransferError: "saved (respondTransferError env conn errMsg) = []"
  by (simp add: respondTransferError_def Let_def split: option.splits)

text \<open>
  Claim C3. Given a message whose \<open>Data\<close> is empty, \<open>jobTransferCallback\<close> sends
  exactly one message, a \<open>TransferFailed\<close> whose \<open>Data\<close> is the error text (the
  folder error when the folder cannot be created, "empty data field" otherwise), and
  does not call \<open>saveBinary\<close>. Whenever the handler calls \<open>saveBinary\<close>, the
  payload is not empty and is what is saved to \<open>.beekeeper/job.bin\<close>.
\<close>

theorem jobTransferCallback_empty_payload:
  "(Data msg = [] \<longrightarrow>
      sent (snd (jobTransferCallback env s conn msg)) =
        [\<lparr>Operation = OperationTransferFailed, Message_Name = [],
          Data = bytes_of (case createFolderIfNotExist env ''.beekeeper'' of
                             Some err \<Rightarrow> err | None \<Rightarrow> ''empty data field''),
          Message_NodeInfo = zero_NodeInfo\<rparr>] \<and>
      saved (snd (jobTransferCallback env s conn msg)) = []) \<and>
   (saved (snd (jobTransferCallback env s conn msg)) \<noteq> [] \<longrightarrow>
      Data msg \<noteq> [] \<and>
      saved (snd (jobTransferCallback env s conn msg)) = [(''.beekeeper/job.bin'', Data msg)])"
  by (simp add: jobTransferCallback_def Let_def sent_append saved_append
      sent_respondTransferError saved_respondTransferError split: option.splits)

theorem jobTransferCallback_empty_payload_witness:
  "Data (example_Message []) = [] \<and>
   sent (snd (jobTransferCallback example_Env example_Server (Some 7) (example_Message []))) =
     [\<lparr>Operation = OperationTransferFailed, Message_Name = [], Data = bytes_of ''empty data field'',
       Message_NodeInfo = zero_NodeInfo\<rparr>] \<and>
   saved (snd (jobTransferCallback example_Env example_Server (Some 7) (example_Message []))) = [] \<and>
   saved (snd (jobTransferCallback example_Env example_Server (Some 7) (example_Message [1, 2]))) =
     [(''.beekeeper/job.bin'', [1, 2])]"
proof -
  have "saved (snd (jobTransferCallback example_Env example_Server (Some 7) (example_Message [1, 2]))) \<noteq> []"
    by (simp add: jobTransferCallback_def example_Env_def example_Message_def Let_def)
  with jobTransferCallback_empty_payload[of "example_Message []" example_Env example_Server "Some 7"]
    jobTransferCallback_empty_payload[of "example_Message [1, 2]" example_Env example_Server "Some 7"]
  show ?thesis
    by (simp add: example_Env_def example_Message_def)
qed

text \<open>
  Claim C4. When the message decodes to a task and \<open>runLocalJob\<close> returns an error
  for it, the result \<open>jobExecuteCallback\<close> produces (and hands to \<open>encode\<close>) has a
  non-empty \<open>Error\<close> and the task's \<open>UUID\<close>. Whatever the server's \<open>Status\<close> was
  (\<open>StatusIDLE\<close> in particular), the server's field is \<open>StatusWorking\<close> while the job
  runs and \<open>StatusIDLE\<close> when the handler ends, nothing else of the server changing;
  the assignments and the run happen in this order.
\<close>

theorem jobExecuteCallback_failed_job:
  assumes "decodeTask env (Data msg) = Inr task" and "runLocalJob env task = Inl err"
  shows "produced (snd (jobExecuteCallback env s conn msg)) =
           [\<lparr>UUID = Task_UUID task, Error = ''Unable to run job: '' @ err\<rparr>] \<and>
         list_all (\<lambda>res. Error res \<noteq> [] \<and> UUID res = Task_UUID task)
           (produced (snd (jobExecuteCallback env s conn msg))) \<and>
         running (snd (jobExecuteCallback env s conn msg)) = [s\<lparr>Server_Status := StatusWorking\<rparr>] \<and>
         fst (jobExecuteCallback env s conn msg) = s\<lparr>Server_Status := StatusIDLE\<rparr> \<and>
         map Server_Status
           (s # running (snd (jobExecuteCallback env s conn msg)) @ [fst (jobExecuteCallback env s conn msg)]) =
           [Server_Status s, StatusWorking, StatusIDLE] \<and>
         status_history (snd (jobExecuteCallback env s conn msg)) =
           [SetStatus StatusWorking, RunLocalJob (s\<lparr>Server_Status := StatusWorking\<rparr>) task,
            SetStatus StatusIDLE]"
  using assms by (simp add: jobExecuteCallback_def Let_def split: sum.splits option.splits)

theorem jobExecuteCallback_failed_job_witness:
  "decodeTask example_Env (Data (example_Message [1])) = Inr \<lparr>Task_UUID = ''t-1'', Payload = [1]\<rparr> \<and>
   runLocalJob example_Env \<lparr>Task_UUID = ''t-1'', Payload = [1]\<rparr> = Inl ''exit status 1'' \<and>
   produced (snd (jobExecuteCallback example_Env example_Server (Some 7) (example_Message [1]))) =
     [\<lparr>UUID = ''t-1'', Error = ''Unable to run job: exit status 1''\<rparr>] \<and>
   map Server_Status
     (example_Server #
      running (snd (jobExecuteCallback example_Env example_Server (Some 7) (example_Message [1]))) @
      [fst (jobExecuteCallback example_Env example_Server (Some 7) (example_Message [1]))]) =
     [StatusIDLE, StatusWorking, StatusIDLE] \<and>
   Server_Status (fst (jobExecuteCallback example_Env (example_Server\<lparr>Server_Status := StatusWorking\<rparr>)
     (Some 7) (example_Message [1]))) = StatusIDLE \<and>
   fst (jobExecuteCallback example_Env (example_Server\<lparr>Server_Status := StatusWorking\<rparr>)
     (Some 7) (example_Message [1])) = example_Server"
  using jobExecuteCallback_failed_job[of example_Env "example_Message [1]"
      "\<lparr>Task_UUID = ''t-1'', Payload = [1]\<rparr>" "''exit status 1''" example_Server "Some 7"]
    jobExecuteCallback_failed_job[of example_Env "example_Message [1]"
      "\<lparr>Task_UUID = ''t-1'', Payload = [1]\<rparr>" "''exit status 1''"
      "example_Server\<lparr>Server_Status := StatusWorking\<rparr>" "Some 7"]
  by (simp add: example_Env_def example_Message_def example_Server_def)

text \<open>
  Claim C5. When \<open>decodeTask\<close> fails on the message's \<open>Data\<close>,
  \<open>jobExecuteCallback\<close> sends no message at all: it logs the error and does nothing
  else.
\<close>

theorem jobExecuteCallback_undecodable_no_reply:
  assumes "decodeTask env (Data msg) = Inl err"
  shows "sent (snd (jobExecuteCallback env s conn msg)) = [] \<and>
         snd (jobExecuteCallback env s conn msg) = [Log Errorln [''Unable to read task data:'', err]]"
  using assms by (simp add: jobExecuteCallback_def)

theorem jobExecuteCallback_undecodable_no_reply_witness:
  "decodeTask example_Env (Data (example_Message [])) = Inl ''EOF'' \<and>
   sent (snd (jobExecuteCallback example_Env example_Server (Some 7) (example_Message []))) = [] \<and>
   snd (jobExecuteCallback example_Env example_Server (Some 7) (example_Message [])) =
     [Log Errorln [''Unable to read task data:'', ''EOF'']]"
  using jobExecuteCallback_undecodable_no_reply[of example_Env "example_Message []" "''EOF''" example_Server "Some 7"]
  by (simp add: example_Env_def example_Message_def)

text \<open>
  Claim C10. When \<open>decodeTask\<close> fails on the message's \<open>Data\<close>,
  \<open>jobExecuteCallback\<close> leaves the server as it was and never assigns to
  \<open>s.Status\<close>.
\<close>

theorem jobExecuteCallback_undecodable_status_unchanged:
  assumes "decodeTask env (Data msg) = Inl err"
  shows "fst (jobExecuteCallback env s conn msg) = s \<and>
         status_history (snd (jobExecuteCallback env s conn msg)) = []"
  using assms by (simp add: jobExecuteCallback_def)

theorem jobExecuteCallback_undecodable_status_unchanged_witness:
  "decodeTask example_Env (Data (example_Message [])) = Inl ''EOF'' \<and>
   fst (jobExecuteCallback example_Env (example_Server\<lparr>Server_Status := StatusWorking\<rparr>) (Some 7) (example_Message [])) =
     example_Server\<lparr>Server_Status := StatusWorking\<rparr> \<and>
   status_history (snd (jobExecuteCallback example_Env (example_Server\<lparr>Server_Status := StatusWorking\<rparr>) (Some 7)
     (example_Message []))) = []"
  using jobExecuteCallback_undecodable_status_unchanged[of example_Env "example_Message []" "''EOF''"
      "example_Server\<lparr>Server_Status := StatusWorking\<rparr>" "Some 7"]
  by (simp add: example_Env_def example_Message_def)

section \<open>Properties of ExecuteMany\<close>

lemma collect_all_results:
  "\<not> list_ex is_error arrivals \<Longrightarrow> length results + length arrivals = len_n \<Longrightarrow>
   collect len_n arrivals results = Returned (results @ results_of arrivals) None"
proof (induction arrivals arbitrary: results)
  case Nil
  then show ?case by simp
next
  case (Cons a arrivals)
  then show ?case by (cases a) auto
qed

lemma results_of_no_error:
  "\<not> list_ex is_error arrivals \<Longrightarrow> map ToResultsChan (results_of arrivals) = arrivals"
proof (induction arrivals)
  case Nil
  then show ?case by simp
next
  case (Cons a arrivals)
  then show ?case by (cases a) auto
qed

lemma collect_first_error:
  "list_ex is_error arrivals \<Longrightarrow> length results + length (results_of arrivals) < len_n \<Longrightarrow>
   \<exists>err. ToErrChan err \<in> set arrivals \<and> collect len_n arrivals results = Returned [] (Some err)"
proof (induction arrivals arbitrary: results)
  case Nil
  then show ?case by simp
next
  case (Cons a arrivals)
  show ?case
  proof (cases a)
    case (ToErrChan err)
    with Cons.prems show ?thesis by auto
  next
    case (ToResultsChan res)
    with Cons.prems have "list_ex is_error arrivals"
      and "length (results @ [res]) + length (results_of arrivals) < len_n"
      by simp_all
    from Cons.IH[OF this] ToResultsChan Cons.prems show ?thesis by auto
  qed
qed

lemma length_results_of: "list_ex is_error arrivals \<Longrightarrow> length (results_of arrivals) < length arrivals"
proof (induction arrivals rule: results_of.induct)
  case 1
  then show ?case by simp
next
  case (2 res arrivals)
  then show ?case by simp
next
  case (3 err arrivals)
  have "length (results_of arrivals) \<le> length arrivals"
    by (induction arrivals rule: results_of.induct) auto
  then show ?case by simp
qed

lemma set_offers:
  "set (offers exec n t timeout) = {a. \<exists>node\<in>set n. goroutine exec t timeout node = Some a}"
proof (induction n)
  case Nil
  then show ?case by (simp add: offers_def)
next
  case (Cons node n)
  then show ?case by (auto simp: offers_def split: option.splits)
qed

lemma length_offers: "length (offers exec n t timeout) \<le> length n"
  by (simp add: offers_def map_filter_def)

lemma offers_succeeds:
  "list_all (succeeds exec t timeout) n \<Longrightarrow>
   offers exec n t timeout = map ToResultsChan (returned exec n t timeout) \<and>
   length (returned exec n t timeout) = length n"
proof (induction n)
  case Nil
  then show ?case by (simp add: offers_def returned_def)
next
  case (Cons node n)
  then show ?case
    by (auto simp: offers_def returned_def succeeds_def goroutine_def split: option.splits sum.splits)
qed

lemma results_of_map: "results_of (map ToResultsChan rs) = rs"
  by (induction rs) auto

lemma mset_results_of:
  "mset (results_of arrivals) = (\<Sum>a\<in>#mset arrivals. mset (results_of [a]))"
proof (induction arrivals)
  case Nil
  then show ?case by simp
next
  case (Cons a arrivals)
  then show ?case by (cases a) auto
qed

lemma mset_results_of_cong:
  assumes "mset xs = mset ys"
  shows "mset (results_of xs) = mset (results_of ys)"
proof -
  have "mset (results_of xs) = (\<Sum>a\<in>#mset xs. mset (results_of [a]))"
    by (rule mset_results_of)
  also have "\<dots> = (\<Sum>a\<in>#mset ys. mset (results_of [a]))"
    by (simp only: assms)
  also have "\<dots> = mset (results_of ys)"
    by (rule mset_results_of[symmetric])
  finally show ?thesis .
qed

text \<open>
  Claim C6, as amended. When the \<open>Execute\<close> invocation of every node of \<open>n\<close> succeeds
  (returns with a nil error), then in whatever order the goroutines' sends arrive,
  \<open>ExecuteMany\<close> returns a nil error and exactly \<open>length n\<close> results: the results the
  invocations returned, in arrival order. \<open>ExecuteMany\<close> does not look at a result's
  \<open>UUID\<close>: the results carry the task's \<open>UUID\<close> when those \<open>Execute\<close> returned do.
\<close>

theorem ExecuteMany_all_succeed:
  assumes "list_all (succeeds exec t timeout) n" and "schedule exec n t timeout arrivals"
  shows "\<exists>results. ExecuteMany n t timeout arrivals = Returned results None \<and>
           length results = length n \<and>
           map ToResultsChan results = arrivals \<and>
           mset results = mset (returned exec n t timeout) \<and>
           (list_all (\<lambda>res. UUID res = Task_UUID t) (returned exec n t timeout) \<longrightarrow>
              list_all (\<lambda>res. UUID res = Task_UUID t) results)"
proof -
  from offers_succeeds[OF assms(1)]
  have off: "offers exec n t timeout = map ToResultsChan (returned exec n t timeout)"
    and len: "length (returned exec n t timeout) = length n"
    by simp_all
  from assms(2) have m: "mset arrivals = mset (map ToResultsChan (returned exec n t timeout))"
    by (simp add: schedule_def off)
  then have s: "set arrivals = ToResultsChan ` set (returned exec n t timeout)"
    by (metis mset_eq_setD set_map)
  from m len have l: "length arrivals = length n"
    by (metis size_mset length_map)
  have ne: "\<not> list_ex is_error arrivals"
    using s by (auto simp: list_ex_iff)
  have r: "ExecuteMany n t timeout arrivals = Returned (results_of arrivals) None"
    using collect_all_results[OF ne, of "[]" "length n"] l by (simp add: ExecuteMany_def)
  have rt: "map ToResultsChan (results_of arrivals) = arrivals"
    using ne by (rule results_of_no_error)
  then have ln: "length (results_of arrivals) = length n"
    using l by (metis length_map)
  have ms: "mset (results_of arrivals) = mset (returned exec n t timeout)"
    using mset_results_of_cong[OF m] by (simp add: results_of_map)
  then have "set (results_of arrivals) = set (returned exec n t timeout)"
    by (rule mset_eq_setD)
  then have "list_all (\<lambda>res. UUID res = Task_UUID t) (returned exec n t timeout) \<longrightarrow>
      list_all (\<lambda>res. UUID res = Task_UUID t) (results_of arrivals)"
    by (simp add: list_all_iff)
  with r rt ln ms show ?thesis by blast
qed

theorem ExecuteMany_all_succeed_witness:
  "list_all (succeeds example_Execute example_Task [30]) [node_A, node_B] \<and>
   schedule example_Execute [node_A, node_B] example_Task [30]
     [ToResultsChan \<lparr>UUID = ''t-1'', Error = []\<rparr>, ToResultsChan \<lparr>UUID = ''t-1'', Error = []\<rparr>] \<and>
   list_all (\<lambda>res. UUID res = Task_UUID example_Task) (returned example_Execute [node_A, node_B] example_Task [30]) \<and>
   ExecuteMany [node_A, node_B] example_Task [30]
     [ToResultsChan \<lparr>UUID = ''t-1'', Error = []\<rparr>, ToResultsChan \<lparr>UUID = ''t-1'', Error = []\<rparr>] =
     Returned [\<lparr>UUID = ''t-1'', Error = []\<rparr>, \<lparr>UUID = ''t-1'', Error = []\<rparr>] None"
proof -
  have h1: "list_all (succeeds example_Execute example_Task [30]) [node_A, node_B]"
    by (simp add: succeeds_def example_Execute_def example_Task_def node_A_def node_B_def)
  have h2: "schedule example_Execute [node_A, node_B] example_Task [30]
     [ToResultsChan \<lparr>UUID = ''t-1'', Error = []\<rparr>, ToResultsChan \<lparr>UUID = ''t-1'', Error = []\<rparr>]"
    by (simp add: schedule_def offers_def map_filter_simps goroutine_def example_Execute_def
        example_Task_def node_A_def node_B_def)
  have h3: "list_all (\<lambda>res. UUID res = Task_UUID example_Task)
      (returned example_Execute [node_A, node_B] example_Task [30])"
    by (simp add: returned_def example_Execute_def example_Task_def node_A_def node_B_def)
  from ExecuteMany_all_succeed[OF h1 h2] h1 h2 h3 show ?thesis
    by (auto simp: ExecuteMany_def)
qed

text \<open>
  Claim C6 as stated fails: with an \<open>Execute\<close> that returns, with a nil error, a result
  whose \<open>UUID\<close> is not the task's (a reply to an earlier task, say: replies are matched
  by their position on the connection), every invocation succeeds and \<open>ExecuteMany\<close>
  returns these results as they are.
\<close>

theorem ExecuteMany_UUID_counterexample:
  "list_all (succeeds stale_Execute example_Task [30]) [node_A, node_B] \<and>
   schedule stale_Execute [node_A, node_B] example_Task [30]
     [ToResultsChan \<lparr>UUID = ''t-0'', Error = []\<rparr>, ToResultsChan \<lparr>UUID = ''t-0'', Error = []\<rparr>] \<and>
   ExecuteMany [node_A, node_B] example_Task [30]
     [ToResultsChan \<lparr>UUID = ''t-0'', Error = []\<rparr>, ToResultsChan \<lparr>UUID = ''t-0'', Error = []\<rparr>] =
     Returned [\<lparr>UUID = ''t-0'', Error = []\<rparr>, \<lparr>UUID = ''t-0'', Error = []\<rparr>] None \<and>
   \<not> list_all (\<lambda>res. UUID res = Task_UUID example_Task)
       [\<lparr>UUID = ''t-0'', Error = []\<rparr>, \<lparr>UUID = ''t-0'', Error = []\<rparr>]"
proof -
  have "list_all (succeeds stale_Execute example_Task [30]) [node_A, node_B]"
    by (simp add: succeeds_def stale_Execute_def)
  moreover have "schedule stale_Execute [node_A, node_B] example_Task [30]
     [ToResultsChan \<lparr>UUID = ''t-0'', Error = []\<rparr>, ToResultsChan \<lparr>UUID = ''t-0'', Error = []\<rparr>]"
    by (simp add: schedule_def offers_def goroutine_def stale_Execute_def)
  moreover have "ExecuteMany [node_A, node_B] example_Task [30]
     [ToResultsChan \<lparr>UUID = ''t-0'', Error = []\<rparr>, ToResultsChan \<lparr>UUID = ''t-0'', Error = []\<rparr>] =
     Returned [\<lparr>UUID = ''t-0'', Error = []\<rparr>, \<lparr>UUID = ''t-0'', Error = []\<rparr>] None"
    by (simp add: ExecuteMany_def)
  moreover have "\<not> list_all (\<lambda>res. UUID res = Task_UUID example_Task)
       [\<lparr>UUID = ''t-0'', Error = []\<rparr>, \<lparr>UUID = ''t-0'', Error = []\<rparr>]"
    by (simp add: example_Task_def)
  ultimately show ?thesis by blast
qed

text \<open>
  Claim C7. When the \<open>Execute\<close> invocation of at least one node of \<open>n\<close> returns an
  error, then in whatever order the goroutines' sends arrive (however many results
  arrive first, and whether or not the other invocations return), \<open>ExecuteMany\<close>
  returns nil results and the error "node NAME error: TEXT" of a node whose invocation
  failed, \<open>NAME\<close> being that node's name.
\<close>

theorem ExecuteMany_first_error:
  assumes "node \<in> set n" and "exec node t timeout = Some (Inl err)"
    and "schedule exec n t timeout arrivals"
  shows "\<exists>failing\<in>set n. \<exists>e. exec failing t timeout = Some (Inl e) \<and>
           ExecuteMany n t timeout arrivals =
             Returned [] (Some (''node '' @ Name failing @ '' error: '' @ e))"
proof -
  from assms(3) have m: "mset arrivals = mset (offers exec n t timeout)"
    by (simp add: schedule_def)
  then have s: "set arrivals = set (offers exec n t timeout)"
    by (rule mset_eq_setD)
  from m have l: "length arrivals \<le> length n"
    using length_offers[of exec n t timeout] by (metis size_mset)
  from assms(2) have "goroutine exec t timeout node = Some (ToErrChan (''node '' @ Name node @ '' error: '' @ err))"
    by (simp add: goroutine_def)
  with assms(1) have "ToErrChan (''node '' @ Name node @ '' error: '' @ err) \<in> set arrivals"
    unfolding s set_offers by blast
  then have ex: "list_ex is_error arrivals"
    by (force simp: list_ex_iff)
  with l have "length [] + length (results_of arrivals) < length n"
    using length_results_of[OF ex] by simp
  from collect_first_error[OF ex this] obtain e where
    e: "ToErrChan e \<in> set arrivals" "ExecuteMany n t timeout arrivals = Returned [] (Some e)"
    by (auto simp: ExecuteMany_def)
  from e(1) obtain failing where f: "failing \<in> set n" "goroutine exec t timeout failing = Some (ToErrChan e)"
    by (auto simp: s set_offers)
  then obtain e' where "exec failing t timeout = Some (Inl e')" "e = ''node '' @ Name failing @ '' error: '' @ e'"
    by (auto simp: goroutine_def split: option.splits sum.splits)
  with f(1) e(2) show ?thesis by blast
qed

theorem ExecuteMany_first_error_witness:
  "node_C \<in> set [node_A, node_C, node_D] \<and>
   example_Execute node_C example_Task [] = Some (Inl ''connection reset'') \<and>
   schedule example_Execute [node_A, node_C, node_D] example_Task []
     [ToResultsChan \<lparr>UUID = ''t-1'', Error = []\<rparr>, ToErrChan ''node C error: connection reset''] \<and>
   ExecuteMany [node_A, node_C, node_D] example_Task []
     [ToResultsChan \<lparr>UUID = ''t-1'', Error = []\<rparr>, ToErrChan ''node C error: connection reset''] =
     Returned [] (Some ''node C error: connection reset'')"
proof -
  have h1: "node_C \<in> set [node_A, node_C, node_D]" by simp
  have h2: "example_Execute node_C example_Task [] = Some (Inl ''connection reset'')"
    by (simp add: example_Execute_def node_C_def)
  have h3: "schedule example_Execute [node_A, node_C, node_D] example_Task []
     [ToResultsChan \<lparr>UUID = ''t-1'', Error = []\<rparr>, ToErrChan ''node C error: connection reset'']"
    by (simp add: schedule_def offers_def map_filter_simps goroutine_def example_Execute_def
        example_Task_def node_A_def node_C_def node_D_def)
  from ExecuteMany_first_error[OF h1 h2 h3] h1 h2 h3 show ?thesis
    by (auto simp: ExecuteMany_def)
qed

text \<open>
  Claim C9. With an empty node list \<open>ExecuteMany\<close> returns at once, whatever the
  scheduler does: nil results and a nil error; no goroutine is started, so \<open>Execute\<close>
  is never invoked.
\<close>

theorem ExecuteMany_no_nodes:
  "ExecuteMany [] t timeout arrivals = Returned [] None \<and> offers exec [] t timeout = []"
  by (cases arrivals) (simp_all add: ExecuteMany_def offers_def map_filter_simps)

theorem ExecuteMany_no_nodes_witness:
  "ExecuteMany [] example_Task [30] [] = Returned [] None \<and>
   offers example_Execute [] example_Task [30] = []"
  using ExecuteMany_no_nodes[of example_Task "[30]" "[]" example_Execute] by simp

section \<open>Properties of sort\<close>

lemma bytes_Compare_less: "bytes_Compare x y < 0 \<longleftrightarrow> x < y"
  by (induction x y rule: bytes_Compare.induct) auto

lemma bytes_Compare_eq: "bytes_Compare x y = 0 \<longleftrightarrow> x = y"
  by (induction x y rule: bytes_Compare.induct) auto

lemma bytes_Compare_le: "bytes_Compare x y \<le> 0 \<longleftrightarrow> x \<le> y"
  using bytes_Compare_less[of x y] bytes_Compare_eq[of x y] by (auto simp: order_le_less)

lemma sorted_wrt_cong_set:
  "(\<And>x y. x \<in> set xs \<Longrightarrow> y \<in> set xs \<Longrightarrow> P x y = Q x y) \<Longrightarrow> sorted_wrt P xs = sorted_wrt Q xs"
  by (induction xs) auto

lemma sort_less_addressed:
  "addressed a \<Longrightarrow> addressed b \<Longrightarrow> (sort_less a b = Inr True) \<longleftrightarrow> raw_IP a < raw_IP b"
  by (auto simp: sort_less_def Addr_IP_def addressed_def raw_IP_def bytes_Compare_less)

lemma Compare_le_addressed:
  "addressed a \<Longrightarrow> addressed b \<Longrightarrow>
   (case (Addr a, Addr b) of (Some x, Some y) \<Rightarrow> bytes_Compare (IP x) (IP y) \<le> 0 | _ \<Rightarrow> False)
     \<longleftrightarrow> raw_IP a \<le> raw_IP b"
  by (auto simp: addressed_def raw_IP_def bytes_Compare_le)

lemma nondecreasing_addressed:
  "list_all addressed ys \<Longrightarrow> nondecreasing ys \<longleftrightarrow> sorted (map raw_IP ys)"
  unfolding nondecreasing_def sorted_map
  by (intro sorted_wrt_cong_set Compare_le_addressed) (simp_all add: list_all_iff)

lemma sort_Slice_addressed:
  assumes "list_all addressed n"
  shows "sort_Slice (\<lambda>a b. sort_less a b = Inr True) n ys \<longleftrightarrow>
           mset ys = mset n \<and> sorted (map raw_IP ys)"
proof (cases "mset ys = mset n")
  case True
  then have "set ys = set n" by (rule mset_eq_setD)
  with assms have a: "list_all addressed ys" by (simp add: list_all_iff)
  have "sorted_wrt (\<lambda>a b. \<not> sort_less b a = Inr True) ys \<longleftrightarrow> sorted_wrt (\<lambda>a b. raw_IP a \<le> raw_IP b) ys"
    using a by (intro sorted_wrt_cong_set) (auto simp: list_all_iff sort_less_addressed not_less)
  with True show ?thesis by (simp add: sort_Slice_def sorted_map)
next
  case False
  then show ?thesis by (simp add: sort_Slice_def)
qed

text \<open>
  Claim C8, as amended. For every list of nodes that have an address, \<open>sort\<close> returns:
  it yields a list, and every list it can yield holds the same nodes as the input and
  is non-decreasing under \<open>bytes.Compare\<close> of the IPs. Nothing is said of the order of
  nodes whose IPs compare equal: \<open>sort.Slice\<close> is not a stable sort.
\<close>

theorem sort_nondecreasing_permutation:
  assumes "list_all addressed n"
  shows "(\<exists>ys. Nodes_sort n (Inr ys)) \<and>
         (\<forall>out. Nodes_sort n out \<longrightarrow> (\<exists>ys. out = Inr ys \<and> mset ys = mset n \<and> nondecreasing ys))"
proof
  have "Nodes_sort n (Inr (sort_key raw_IP n))"
    using assms by (simp add: Nodes_sort_def sort_Slice_addressed)
  then show "\<exists>ys. Nodes_sort n (Inr ys)" ..
next
  show "\<forall>out. Nodes_sort n out \<longrightarrow> (\<exists>ys. out = Inr ys \<and> mset ys = mset n \<and> nondecreasing ys)"
  proof (intro allI impI)
    fix out
    assume "Nodes_sort n out"
    with assms obtain ys where ys: "out = Inr ys" "mset ys = mset n" "sorted (map raw_IP ys)"
      by (auto simp: Nodes_sort_def sort_Slice_addressed split: sum.splits)
    from ys(2) have "set ys = set n" by (rule mset_eq_setD)
    with assms have "list_all addressed ys" by (simp add: list_all_iff)
    with ys show "\<exists>ys. out = Inr ys \<and> mset ys = mset n \<and> nondecreasing ys"
      by (simp add: nondecreasing_addressed)
  qed
qed

lemmas sort_example_defs = unsorted_Nodes_def sorted_Nodes_def example_node_def addressed_def
  Nodes_sort_def sort_Slice_def sort_less_def Addr_IP_def nondecreasing_def
  keeps_order_of_equals_def same_IP_bytes_def

lemma example_Nodes_sort: "Nodes_sort unsorted_Nodes (Inr sorted_Nodes)"
  by (simp add: sort_example_defs)

theorem sort_nondecreasing_permutation_witness:
  "list_all addressed unsorted_Nodes \<and> Nodes_sort unsorted_Nodes (Inr sorted_Nodes) \<and>
   mset sorted_Nodes = mset unsorted_Nodes \<and> nondecreasing sorted_Nodes"
proof -
  have a: "list_all addressed unsorted_Nodes"
    by (simp add: unsorted_Nodes_def example_node_def addressed_def)
  from sort_nondecreasing_permutation[OF a] example_Nodes_sort a show ?thesis
    by auto
qed

text \<open>
  Claim C8 as stated fails: the thirteen nodes of \<open>unsorted_Nodes\<close> may come back as
  \<open>sorted_Nodes\<close>, where x and y, which have the same IP, have changed places, and a
  stands behind b, c, d and e, which have its IP. (Traced on the library's source, this
  is the order the pattern-defeating quicksort behind \<open>sort.Slice\<close> since Go 1.19
  returns: it swaps the pivot y to the front and sorts the other twelve by insertion.
  The quicksort of the releases before returns x, z, y, a, d, e, c, f, g, b, h, i, j,
  where nodes with equal IPs have changed places as well.)
\<close>

theorem sort_not_stable_counterexample:
  "list_all addressed unsorted_Nodes \<and> Nodes_sort unsorted_Nodes (Inr sorted_Nodes) \<and>
   \<not> keeps_order_of_equals unsorted_Nodes sorted_Nodes"
  by (simp add: sort_example_defs)

end
